theory Spec2Isabelle
  imports Main
begin

section \<open>The recorded response: \<^verbatim>\<open>ResponseCacher\<close>\<close>

text \<open>
  A Go \<^verbatim>\<open>http.Header\<close> is a map from header names to value lists. It is kept here as
  an association list so that \<^verbatim>\<open>range\<close> can walk it; the order of the list stands for
  the (unspecified) iteration order of the Go map. A nil header map and an empty one are
  both \<open>[]\<close>: \<^verbatim>\<open>Header()\<close> replaces nil by an empty map and \<^verbatim>\<open>range\<close> over nil
  runs zero times, so the code cannot tell them apart.
\<close>

type_synonym header = "(string \<times> string list) list"

text \<open>
  The struct of \<^verbatim>\<open>ResponseCacher\<close>. \<open>Body\<close> is a \<^verbatim>\<open>*bytes.Buffer\<close>: \<open>None\<close> is the
  nil pointer. The private fields \<^verbatim>\<open>id\<close> and \<^verbatim>\<open>regen\<close> are \<open>ident\<close> and
  \<open>regenerating\<close> here (\<open>id\<close> is the identity function of HOL, and \<open>regen\<close> is kept
  for the method of \<^verbatim>\<open>Cache\<close>).
\<close>

record ResponseCacher =
  Code :: int
  Head :: header
  Body :: "string option"
  Done :: bool
  wroteHeader :: bool
  ident :: int
  fresh :: bool
  regenerating :: bool

definition NewResponseCacher :: "int \<Rightarrow> ResponseCacher" where
  "NewResponseCacher i =
     \<lparr>Code = 0, Head = [], Body = Some [], Done = False, wroteHeader = False,
      ident = i, fresh = True, regenerating = False\<rparr>"

definition Header :: "ResponseCacher \<Rightarrow> header" where
  "Header c = Head c"

definition WriteHeader :: "ResponseCacher \<Rightarrow> int \<Rightarrow> ResponseCacher" where
  "WriteHeader c code =
     (let c1 = (if \<not> wroteHeader c then c\<lparr>Code := code\<rparr> else c)
      in c1\<lparr>wroteHeader := True\<rparr>)"

text \<open>\<^verbatim>\<open>Write\<close> returns the recorder, the byte count and the error (always nil).\<close>

definition Write :: "ResponseCacher \<Rightarrow> string \<Rightarrow> ResponseCacher \<times> nat \<times> string option" where
  "Write c buf =
     (let c1 = (if \<not> wroteHeader c then WriteHeader c 200 else c);
          c2 = (case Body c1 of None \<Rightarrow> c1 | Some b \<Rightarrow> c1\<lparr>Body := Some (b @ buf)\<rparr>)
      in (c2, length buf, None))"

definition Flush :: "ResponseCacher \<Rightarrow> ResponseCacher" where
  "Flush c =
     (let c1 = (if \<not> wroteHeader c then WriteHeader c 200 else c)
      in c1\<lparr>Done := True\<rparr>)"

text \<open>
  The live \<^verbatim>\<open>http.ResponseWriter\<close> that a response is served to is an interface whose
  implementation lies outside the package. It is modelled by the list of the method calls
  it has received, oldest first.
\<close>

datatype call = HeaderSet string string | CallWriteHeader int | CallWrite string

text \<open>\<^verbatim>\<open>(*bytes.Buffer).String\<close>, which answers \<^verbatim>\<open><nil>\<close> on a nil buffer.\<close>

definition Buffer_String :: "string option \<Rightarrow> string" where
  "Buffer_String b = (case b of None \<Rightarrow> ''<nil>'' | Some s \<Rightarrow> s)"

text \<open>The loop \<^verbatim>\<open>for key, val := range c.Head\<close> of \<^verbatim>\<open>Serve\<close>.\<close>

fun Serve_headers :: "header \<Rightarrow> call list \<Rightarrow> call list" where
  "Serve_headers [] w = w"
| "Serve_headers ((key, val) # rest) w =
     Serve_headers rest (if length val > 0 then w @ [HeaderSet key (val ! 0)] else w)"

text \<open>\<^verbatim>\<open>fmt.Fprintln(w, s)\<close> hands \<open>s\<close> followed by a newline to one \<^verbatim>\<open>w.Write\<close>.\<close>

definition Serve :: "ResponseCacher \<Rightarrow> call list \<Rightarrow> bool \<Rightarrow> call list" where
  "Serve c w mark =
     (let w1 = Serve_headers (Head c) w;
          w2 = (if mark then w1 @ [HeaderSet ''X-From-BurstCache'' ''1''] else w1);
          w3 = w2 @ [CallWriteHeader (Code c)]
      in w3 @ [CallWrite (Buffer_String (Body c) @ [CHR 0x0A])])"

text \<open>
  What a downstream handler can do to the writer it is given: mutate the map returned by
  \<^verbatim>\<open>Header()\<close>, and call \<^verbatim>\<open>Write\<close>, \<^verbatim>\<open>WriteHeader\<close> and \<^verbatim>\<open>Flush\<close>.
\<close>

datatype op = OpHeader "header \<Rightarrow> header" | OpWrite string | OpWriteHeader int | OpFlush

fun apply_op :: "ResponseCacher \<Rightarrow> op \<Rightarrow> ResponseCacher" where
  "apply_op c (OpHeader f) = c\<lparr>Head := f (Header c)\<rparr>"
| "apply_op c (OpWrite buf) = fst (Write c buf)"
| "apply_op c (OpWriteHeader code) = WriteHeader c code"
| "apply_op c OpFlush = Flush c"

definition run_ops :: "ResponseCacher \<Rightarrow> op list \<Rightarrow> ResponseCacher" where
  "run_ops c ops = foldl apply_op c ops"

text \<open>
  The status a sequence of operations fixes: the argument of the first \<^verbatim>\<open>WriteHeader\<close>,
  or 200 when a \<^verbatim>\<open>Write\<close> or a \<^verbatim>\<open>Flush\<close> comes before any.
\<close>

fun first_status :: "op list \<Rightarrow> int option" where
  "first_status [] = None"
| "first_status (OpHeader f # ops) = first_status ops"
| "first_status (OpWrite buf # ops) = Some 200"
| "first_status (OpWriteHeader code # ops) = Some code"
| "first_status (OpFlush # ops) = Some 200"

text \<open>
  The header map a standard writer holds after a list of calls: \<^verbatim>\<open>Header().Set(k, v)\<close>
  replaces the values stored under the canonical form of \<open>k\<close> by the single value \<open>v\<close>.
  The canonicalisation is a function of the Go library and is left a parameter.
\<close>

fun apply_call :: "(string \<Rightarrow> string) \<Rightarrow> (string \<rightharpoonup> string list) \<Rightarrow> call \<Rightarrow> (string \<rightharpoonup> string list)" where
  "apply_call canon h (HeaderSet k v) = h(canon k \<mapsto> [v])"
| "apply_call canon h (CallWriteHeader code) = h"
| "apply_call canon h (CallWrite buf) = h"

definition headers_after :: "(string \<Rightarrow> string) \<Rightarrow> call list \<Rightarrow> (string \<rightharpoonup> string list)" where
  "headers_after canon w = foldl (apply_call canon) Map.empty w"

section \<open>The cache store: \<^verbatim>\<open>Cache\<close>\<close>

text \<open>
  The only part of a request the package reads is \<^verbatim>\<open>r.URL.Path\<close>, in the vanilla
  \<^verbatim>\<open>Keymaker\<close>. A \<^verbatim>\<open>Keyer\<close> is also handed the response writer; the vanilla one
  does not use it, and a keyer is taken here to be a function of the request alone.
\<close>

record request =
  Path :: string

definition Keymaker_Key :: "request \<Rightarrow> string" where
  "Keymaker_Key r = Path r"

text \<open>
  \<open>caches\<close> is a Go map of pointers: a key is absent (\<open>None\<close>), bound to the nil
  pointer (\<open>Some None\<close>) or bound to a recorder (\<open>Some (Some e)\<close>). Every recorder is
  referenced from one place only, so a pointer is modelled by the value it points to. The
  mutex is not modelled as data: every method below runs under it and is one atomic step.
\<close>

record Cache =
  Keymaker :: "request \<Rightarrow> string"
  TTL :: nat
  TTD :: nat
  caches :: "string \<rightharpoonup> ResponseCacher option"

definition NewCache :: "(request \<Rightarrow> string) \<Rightarrow> nat \<Rightarrow> nat \<Rightarrow> Cache" where
  "NewCache keymaker ttl ttd =
     \<lparr>Keymaker = keymaker, TTL = ttl, TTD = ttd, caches = Map.empty\<rparr>"

text \<open>The expression \<^verbatim>\<open>c.caches[key]\<close>: nil for an absent key.\<close>

definition index :: "Cache \<Rightarrow> string \<Rightarrow> ResponseCacher option" where
  "index c key = (case caches c key of None \<Rightarrow> None | Some p \<Rightarrow> p)"

text \<open>A nil pointer dereference is the only fault the package can raise.\<close>

datatype fault = NilDereference

definition swap :: "Cache \<Rightarrow> string \<Rightarrow> ResponseCacher \<Rightarrow> Cache" where
  "swap c key cache = c\<lparr>caches := (caches c)(key \<mapsto> Some cache)\<rparr>"

definition stale :: "Cache \<Rightarrow> string \<Rightarrow> fault + Cache" where
  "stale c key =
     (case index c key of
        None \<Rightarrow> Inl NilDereference
      | Some e \<Rightarrow> Inr (c\<lparr>caches := (caches c)(key \<mapsto> Some (e\<lparr>fresh := False\<rparr>))\<rparr>))"

definition kill :: "Cache \<Rightarrow> string \<Rightarrow> Cache" where
  "kill c key = c\<lparr>caches := (caches c)(key \<mapsto> None)\<rparr>"

definition regen :: "Cache \<Rightarrow> string \<Rightarrow> fault + Cache" where
  "regen c key =
     (case index c key of
        None \<Rightarrow> Inl NilDereference
      | Some e \<Rightarrow> Inr (c\<lparr>caches := (caches c)(key \<mapsto> Some (e\<lparr>regenerating := True\<rparr>))\<rparr>))"

definition serve :: "Cache \<Rightarrow> string \<Rightarrow> call list \<Rightarrow> bool \<Rightarrow> fault + call list" where
  "serve c key w mark =
     (case index c key of
        None \<Rightarrow> Inl NilDereference
      | Some e \<Rightarrow> Inr (Serve e w mark))"

definition status :: "Cache \<Rightarrow> string \<Rightarrow> bool \<times> int \<times> bool \<times> bool" where
  "status c key =
     (case caches c key of
        Some (Some cache) \<Rightarrow> (True, ident cache, fresh cache, regenerating cache)
      | _ \<Rightarrow> (False, 0, False, False))"

section \<open>The controller: \<^verbatim>\<open>Chain\<close>, \<^verbatim>\<open>regenerate\<close> and the decay task\<close>

text \<open>
  The downstream handler \<^verbatim>\<open>next\<close> is given by the operations it performs on the writer
  it is handed; they may depend on the request and on how many invocations came before.
\<close>

type_synonym handler = "nat \<Rightarrow> request \<Rightarrow> op list"

text \<open>
  Requests are served concurrently, and \<^verbatim>\<open>regenerate\<close> starts goroutines. Each goroutine
  is a task: a point in the code together with the local variables live there. Between
  two points lies one atomic step: one method of the store (run under its lock), or the
  call of the downstream handler. A response writer is referred to by a number, since the
  goroutine of an asynchronous \<^verbatim>\<open>regenerate\<close> holds the same writer as the request that
  started it.

  \<^item> \<open>Chain w r\<close>: the handler function was entered with writer \<open>w\<close> and request \<open>r\<close>;
  \<^item> \<open>ChainRegen w r key\<close>: inside \<^verbatim>\<open>if !fresh && !regen\<close>, before \<^verbatim>\<open>c.regen(key)\<close>;
  \<^item> \<open>ChainServe w key mark\<close>: before \<^verbatim>\<open>c.serve(key, w, mark)\<close>;
  \<^item> \<open>Regenerate w r key sync\<close>: \<^verbatim>\<open>regenerate\<close> was entered; \<open>sync\<close> tells whether
    \<^verbatim>\<open>Chain\<close> waits for it (the fill) or it runs as a goroutine of its own;
  \<^item> \<open>RegenerateSwap w key i cache sync\<close>: the downstream handler has returned, before
    \<^verbatim>\<open>c.swap(key, cache)\<close>;
  \<^item> \<open>DecayTTL key i\<close>: the decay goroutine, before its first \<^verbatim>\<open>c.status(key)\<close>;
  \<^item> \<open>DecayStale key i\<close>: before \<^verbatim>\<open>c.stale(key)\<close>;
  \<^item> \<open>DecayTTD key i\<close>: before its second \<^verbatim>\<open>c.status(key)\<close>;
  \<^item> \<open>DecayKill key i\<close>: before \<^verbatim>\<open>c.kill(key)\<close>;
  \<^item> \<open>Finished\<close>: the goroutine returned; \<open>Panicked f\<close>: it panicked.

  \<^verbatim>\<open>time.Sleep\<close> is not modelled by a clock: a sleeping task is a task that is scheduled
  later, after any number of steps of the others. Go gives no bound on how long a
  goroutine waits between two of its statements, so every order of the steps is possible,
  whatever \<open>TTL\<close> and \<open>TTD\<close> are. A method that panics releases the lock (the unlock
  is deferred), so the other tasks go on.
\<close>

datatype task =
    Chain nat request
  | ChainRegen nat request string
  | ChainServe nat string bool
  | Regenerate nat request string bool
  | RegenerateSwap nat string int ResponseCacher bool
  | DecayTTL string int
  | DecayStale string int
  | DecayTTD string int
  | DecayKill string int
  | Finished
  | Panicked fault

record world =
  store :: Cache
  threads :: "task list"
  writers :: "nat \<Rightarrow> call list"
  invocations :: nat

definition init_world :: "Cache \<Rightarrow> world" where
  "init_world c = \<lparr>store = c, threads = [], writers = (\<lambda>w. []), invocations = 0\<rparr>"

definition set_task :: "world \<Rightarrow> nat \<Rightarrow> task \<Rightarrow> world" where
  "set_task s tid t = s\<lparr>threads := (threads s)[tid := t]\<rparr>"

definition spawn :: "world \<Rightarrow> task \<Rightarrow> world" where
  "spawn s t = s\<lparr>threads := threads s @ [t]\<rparr>"

text \<open>
  One step of task \<open>tid\<close>. \<open>rnd\<close> is what \<^verbatim>\<open>rand.Intn(1000000)\<close> returns if the step
  draws an identifier; a value outside its range enables no step.
\<close>

fun step_task :: "handler \<Rightarrow> int \<Rightarrow> world \<Rightarrow> nat \<Rightarrow> task \<Rightarrow> world" where
  "step_task nxt rnd s tid (Chain w r) =
     (let key = Keymaker (store s) r in
      case status (store s) key of (ex, sid, fr, rg) \<Rightarrow>
        if \<not> ex then set_task s tid (Regenerate w r key True)
        else if \<not> fr \<and> \<not> rg then set_task s tid (ChainRegen w r key)
        else set_task s tid (ChainServe w key True))"
| "step_task nxt rnd s tid (ChainRegen w r key) =
     (case regen (store s) key of
        Inl f \<Rightarrow> set_task s tid (Panicked f)
      | Inr c \<Rightarrow> spawn (set_task (s\<lparr>store := c\<rparr>) tid (ChainServe w key True))
                       (Regenerate w r key False))"
| "step_task nxt rnd s tid (ChainServe w key mark) =
     (case serve (store s) key (writers s w) mark of
        Inl f \<Rightarrow> set_task s tid (Panicked f)
      | Inr w' \<Rightarrow> set_task (s\<lparr>writers := (writers s)(w := w')\<rparr>) tid Finished)"
| "step_task nxt rnd s tid (Regenerate w r key sync) =
     (if 0 \<le> rnd \<and> rnd < 1000000 then
        let cache = run_ops (NewResponseCacher rnd) (nxt (invocations s) r)
        in set_task (s\<lparr>invocations := Suc (invocations s)\<rparr>) tid
             (RegenerateSwap w key rnd cache sync)
      else s)"
| "step_task nxt rnd s tid (RegenerateSwap w key i cache sync) =
     spawn (set_task (s\<lparr>store := swap (store s) key cache\<rparr>) tid
              (if sync then ChainServe w key False else Finished))
           (DecayTTL key i)"
| "step_task nxt rnd s tid (DecayTTL key i) =
     (case status (store s) key of (ex, stale_id, fr, rg) \<Rightarrow>
        if ex \<and> fr then
          (if stale_id = i then set_task s tid (DecayStale key i)
           else set_task s tid (DecayTTD key i))
        else set_task s tid (DecayTTD key i))"
| "step_task nxt rnd s tid (DecayStale key i) =
     (case stale (store s) key of
        Inl f \<Rightarrow> set_task s tid (Panicked f)
      | Inr c \<Rightarrow> set_task (s\<lparr>store := c\<rparr>) tid (DecayTTD key i))"
| "step_task nxt rnd s tid (DecayTTD key i) =
     (case status (store s) key of (ex, stale_id, fr, rg) \<Rightarrow>
        if ex \<and> \<not> fr \<and> \<not> rg then
          (if stale_id = i then set_task s tid (DecayKill key i)
           else set_task s tid Finished)
        else set_task s tid Finished)"
| "step_task nxt rnd s tid (DecayKill key i) =
     set_task (s\<lparr>store := kill (store s) key\<rparr>) tid Finished"
| "step_task nxt rnd s tid Finished = s"
| "step_task nxt rnd s tid (Panicked f) = s"

text \<open>
  What happens next is chosen by the environment: a request arrives and gets a goroutine
  and a writer of its own, or the scheduler runs one step of a task.
\<close>

datatype event = Arrive request | Run nat int

fun step :: "handler \<Rightarrow> world \<Rightarrow> event \<Rightarrow> world" where
  "step nxt s (Arrive r) = spawn s (Chain (length (threads s)) r)"
| "step nxt s (Run tid rnd) =
     (if tid < length (threads s) then step_task nxt rnd s tid (threads s ! tid) else s)"

definition exec :: "handler \<Rightarrow> world \<Rightarrow> event list \<Rightarrow> world" where
  "exec nxt s evs = foldl (step nxt) s evs"

text \<open>The invariant of the data model, for the entry stored under one key: it is not both
  regenerating and fresh.\<close>

definition entry_is :: "Cache \<Rightarrow> string \<Rightarrow> (ResponseCacher \<Rightarrow> bool) \<Rightarrow> bool" where
  "entry_is c key P = (case index c key of None \<Rightarrow> False | Some e \<Rightarrow> P e)"

definition regen_implies_stale :: "Cache \<Rightarrow> string \<Rightarrow> bool" where
  "regen_implies_stale c key =
     (case index c key of None \<Rightarrow> True | Some e \<Rightarrow> \<not> (regenerating e \<and> fresh e))"

section \<open>Concrete recorders, stores and schedules\<close>

text \<open>
  A recorder whose handler stored two values under one header, and a second header named
  like the cache marker, before writing two body bytes.
\<close>

definition two_valued :: ResponseCacher where
  "two_valued = run_ops (NewResponseCacher 1)
     [OpHeader (\<lambda>h. [(''Vary'', [''a'', ''b'']), (''X-From-BurstCache'', [''0'', ''0''])]),
      OpWrite ''hi'']"

definition one_entry :: Cache where
  "one_entry = swap (NewCache Keymaker_Key 250 750) ''/a'' (NewResponseCacher 1)"

text \<open>A handler that answers every request with status 200 and the body \<^verbatim>\<open>x\<close>.\<close>

definition hello :: handler where
  "hello n r = [OpWriteHeader 200, OpWrite ''x'']"

definition req_a :: request where
  "req_a = \<lparr>Path = ''/a''\<rparr>"

definition cold :: world where
  "cold = init_world (NewCache Keymaker_Key 250 750)"

text \<open>
  The first request for \<^verbatim>\<open>/a\<close> (task 0) finds no entry, fills the cache with the
  entry of identifier 1 and is served; its decay task (task 1) then wakes up after the
  TTL and marks the entry stale.
\<close>

definition fill_then_stale :: "event list" where
  "fill_then_stale = [Arrive req_a, Run 0 0, Run 0 1, Run 0 0, Run 0 0, Run 1 0, Run 1 0]"

text \<open>
  Two requests (tasks 2 and 3) arrive while the entry is stale. Both read the status
  before either marks the entry, so both mark it and both start a regeneration (tasks 4
  and 5), each of which calls the downstream handler; then both are served.
\<close>

definition both_read_first :: "event list" where
  "both_read_first =
     [Arrive req_a, Arrive req_a, Run 2 0, Run 3 0, Run 2 0, Run 3 0, Run 4 2, Run 5 3,
      Run 2 0, Run 3 0]"

text \<open>
  The same two requests; but the regeneration started by task 2 (task 4) has already
  swapped its fresh entry in when task 3, which read the status before, marks the entry
  as regenerating.
\<close>

definition mark_after_swap :: "event list" where
  "mark_after_swap =
     [Arrive req_a, Arrive req_a, Run 2 0, Run 3 0, Run 2 0, Run 4 2, Run 4 0, Run 3 0]"

text \<open>
  One request (task 2) arrives while the entry is stale, just when the decay task wakes
  up after the TTD. Both read the status of the stale, idle entry; the request marks it
  and starts its regeneration, the decay task kills it, and the request serves.
\<close>

definition kill_before_serve :: "event list" where
  "kill_before_serve = [Arrive req_a, Run 2 0, Run 1 0, Run 2 0, Run 1 0, Run 2 0]"

text \<open>
  Two requests (tasks 0 and 1) arrive for the uncached \<^verbatim>\<open>/a\<close> and both find no entry.
  Task 0 fills the cache with the entry of identifier 1; its decay task (task 2) wakes up
  after the TTL and finds that entry fresh. Only then does the slower task 1 swap in its
  own entry, of identifier 2. The last step is the \<^verbatim>\<open>c.stale(key)\<close> of task 2.
\<close>

definition superseded_after_check :: "event list" where
  "superseded_after_check =
     [Arrive req_a, Arrive req_a, Run 0 0, Run 1 0, Run 0 1, Run 0 0, Run 2 0, Run 1 2, Run 1 0]"

text \<open>
  Two requests (tasks 0 and 1) arrive for the uncached \<^verbatim>\<open>/a\<close> and both find no entry.
  Task 0 fills the cache with the entry of identifier 1 and is served. Its decay task
  (task 2) marks that entry stale after the TTL and, after the TTD, finds it stale, idle
  and its own. Only then does the slow handler of task 1 return: task 1 swaps in its entry
  of identifier 2, the decay task kills what is stored, and task 1 serves.
\<close>

definition killed_after_swap :: "event list" where
  "killed_after_swap =
     [Arrive req_a, Arrive req_a, Run 0 0, Run 1 0, Run 0 1, Run 0 0, Run 0 0,
      Run 2 0, Run 2 0, Run 2 0, Run 1 2, Run 1 0, Run 2 0, Run 1 0]"

section \<open>Properties of the recorded response\<close>

lemma wroteHeader_apply_op: "wroteHeader c \<Longrightarrow> wroteHeader (apply_op c x) \<and> Code (apply_op c x) = Code c"
  by (cases x) (simp_all add: Write_def WriteHeader_def Flush_def Header_def Let_def split: option.splits)

lemma Code_run_ops_wrote: "wroteHeader c \<Longrightarrow> Code (run_ops c ops) = Code c"
  unfolding run_ops_def
  by (induction ops arbitrary: c) (simp_all add: wroteHeader_apply_op)

lemma Code_run_ops_unwritten:
  "\<not> wroteHeader c \<Longrightarrow>
     Code (run_ops c ops) = (case first_status ops of None \<Rightarrow> Code c | Some n \<Rightarrow> n)"
proof (induction ops arbitrary: c)
  case Nil
  then show ?case by (simp add: run_ops_def)
next
  case (Cons x ops)
  show ?case
  proof (cases x)
    case (OpHeader f)
    have nw: "\<not> wroteHeader (apply_op c x)" and k: "Code (apply_op c x) = Code c"
      using Cons.prems OpHeader by simp_all
    from nw have "Code (run_ops (apply_op c x) ops) =
        (case first_status ops of None \<Rightarrow> Code (apply_op c x) | Some n \<Rightarrow> n)"
      by (rule Cons.IH)
    then show ?thesis
      using OpHeader k by (simp add: run_ops_def split: option.split)
  next
    case (OpWrite buf)
    have "wroteHeader (apply_op c x)" "Code (apply_op c x) = 200"
      using Cons.prems OpWrite by (simp_all add: Write_def WriteHeader_def Let_def split: option.splits)
    then show ?thesis
      using Code_run_ops_wrote [of "apply_op c x" ops] OpWrite by (simp add: run_ops_def)
  next
    case (OpWriteHeader code)
    have "wroteHeader (apply_op c x)" "Code (apply_op c x) = code"
      using Cons.prems OpWriteHeader by (simp_all add: WriteHeader_def Let_def)
    then show ?thesis
      using Code_run_ops_wrote [of "apply_op c x" ops] OpWriteHeader by (simp add: run_ops_def)
  next
    case OpFlush
    have "wroteHeader (apply_op c x)" "Code (apply_op c x) = 200"
      using Cons.prems OpFlush by (simp_all add: Flush_def WriteHeader_def Let_def)
    then show ?thesis
      using Code_run_ops_wrote [of "apply_op c x" ops] OpFlush by (simp add: run_ops_def)
  qed
qed

text \<open>
  Claim C8, as amended. Once a status has been fixed, no operation changes it. On a
  recorder without one, the status after any sequence of operations is the argument of
  the first \<^verbatim>\<open>WriteHeader\<close>, or 200 when a \<^verbatim>\<open>Write\<close> or a \<^verbatim>\<open>Flush\<close> comes
  before every \<^verbatim>\<open>WriteHeader\<close>; it stays as it was when none of the three occurs.
\<close>

theorem C8_first_status_wins:
  "Code (run_ops c ops) =
     (if wroteHeader c then Code c
      else case first_status ops of None \<Rightarrow> Code c | Some n \<Rightarrow> n)"
  by (simp add: Code_run_ops_wrote Code_run_ops_unwritten)

theorem C8_first_status_wins_witness:
  "Code (run_ops (NewResponseCacher 7) [OpWrite ''a'', OpWriteHeader 404, OpFlush]) = 200"
  using C8_first_status_wins [of "NewResponseCacher 7" "[OpWrite ''a'', OpWriteHeader 404, OpFlush]"]
  by (simp add: NewResponseCacher_def)

text \<open>
  Claim C8 as stated fails: a \<^verbatim>\<open>Flush\<close> before the first \<^verbatim>\<open>WriteHeader\<close> fixes the
  status at 200 although no body byte was written, and the argument 404 of the first
  \<^verbatim>\<open>WriteHeader\<close> of the sequence is ignored.
\<close>

theorem C8_Flush_before_WriteHeader_counterexample:
  "Code (run_ops (NewResponseCacher 7) [OpFlush, OpWriteHeader 404]) = 200 \<and>
   Code (run_ops (NewResponseCacher 7) [OpFlush, OpWriteHeader 404]) \<noteq> 404"
  by (simp add: run_ops_def NewResponseCacher_def Flush_def WriteHeader_def Let_def)

lemma Done_apply_op: "Done c \<Longrightarrow> Done (apply_op c x)"
  by (cases x) (simp_all add: Write_def WriteHeader_def Flush_def Let_def split: option.splits)

lemma Done_run_ops: "Done c \<Longrightarrow> Done (run_ops c ops)"
  unfolding run_ops_def
  by (induction ops arbitrary: c) (simp_all add: Done_apply_op)

lemma Body_Write: "Body c = Some b \<Longrightarrow> Body (fst (Write c buf)) = Some (b @ buf)"
  by (simp add: Write_def WriteHeader_def Let_def)

lemma Body_run_writes:
  "Body c = Some b \<Longrightarrow> Body (run_ops c (map OpWrite bufs)) = Some (b @ concat bufs)"
  unfolding run_ops_def
  by (induction bufs arbitrary: c b) (simp_all add: Body_Write)

lemma Body_run_ops_New: "Body (run_ops (NewResponseCacher i) ops) \<noteq> None"
proof -
  have "Body c \<noteq> None \<Longrightarrow> Body (foldl apply_op c ops) \<noteq> None" for c
  proof (induction ops arbitrary: c)
    case Nil
    then show ?case by simp
  next
    case (Cons x ops)
    have "Body (apply_op c x) \<noteq> None"
      using Cons.prems
      by (cases x) (auto simp: Write_def WriteHeader_def Flush_def Let_def split: option.splits)
    then show ?case using Cons.IH by simp
  qed
  then show ?thesis by (simp add: run_ops_def NewResponseCacher_def)
qed

text \<open>
  Claim C9. On a recorder with a body buffer, \<^verbatim>\<open>Flush\<close> sets \<open>Done\<close> and leaves the
  headers and the body as they are; a status fixed before stays, and where none was fixed
  \<^verbatim>\<open>Flush\<close> fixes 200. Every later \<^verbatim>\<open>Write\<close> appends its bytes and returns their
  number with a nil error, and \<open>Done\<close> stays set whatever follows.
\<close>

theorem C9_Flush_marks_done_only:
  "Body c = Some b \<Longrightarrow>
     Done (Flush c) \<and> Head (Flush c) = Head c \<and> Body (Flush c) = Some b \<and>
     (wroteHeader c \<longrightarrow> Code (Flush c) = Code c) \<and>
     (\<not> wroteHeader c \<longrightarrow> Code (Flush c) = 200) \<and>
     Body (fst (Write (Flush c) buf)) = Some (b @ buf) \<and>
     snd (Write (Flush c) buf) = (length buf, None) \<and>
     Body (run_ops (Flush c) (map OpWrite bufs)) = Some (b @ concat bufs) \<and>
     Done (run_ops (Flush c) ops)"
proof -
  assume b: "Body c = Some b"
  have d: "Done (Flush c)" by (simp add: Flush_def Let_def)
  have fb: "Body (Flush c) = Some b"
    using b by (simp add: Flush_def WriteHeader_def Let_def)
  have "Head (Flush c) = Head c" by (simp add: Flush_def WriteHeader_def Let_def)
  moreover have "wroteHeader c \<longrightarrow> Code (Flush c) = Code c"
    by (simp add: Flush_def Let_def)
  moreover have "\<not> wroteHeader c \<longrightarrow> Code (Flush c) = 200"
    by (simp add: Flush_def WriteHeader_def Let_def)
  moreover have "snd (Write (Flush c) buf) = (length buf, None)"
    by (simp add: Write_def Let_def)
  ultimately show ?thesis
    using d fb Body_Write [OF fb] Body_run_writes [OF fb] Done_run_ops [OF d] by simp
qed

theorem C9_Flush_marks_done_only_witness:
  "Body (run_ops (Flush (fst (Write (NewResponseCacher 1) ''ab''))) (map OpWrite [''c'', ''de''])) =
     Some ''abcde'' \<and>
   Code (Flush (fst (Write (WriteHeader (NewResponseCacher 1) 404) ''ab''))) = 404"
proof -
  have b: "Body (fst (Write (NewResponseCacher 1) ''ab'')) = Some ''ab''"
    by (simp add: Write_def WriteHeader_def NewResponseCacher_def Let_def)
  have b2: "Body (fst (Write (WriteHeader (NewResponseCacher 1) 404) ''ab'')) = Some ''ab''"
    by (simp add: Write_def WriteHeader_def NewResponseCacher_def Let_def)
  have w: "wroteHeader (fst (Write (WriteHeader (NewResponseCacher 1) 404) ''ab''))"
       "Code (fst (Write (WriteHeader (NewResponseCacher 1) 404) ''ab'')) = 404"
    by (simp_all add: Write_def WriteHeader_def NewResponseCacher_def Let_def)
  show ?thesis
    using C9_Flush_marks_done_only [OF b, of "[]" "[''c'', ''de'']" "[]"]
          C9_Flush_marks_done_only [OF b2, of "[]" "[]" "[]"] w
    by simp
qed


lemma Serve_headers_eq:
  "Serve_headers h w =
     w @ map (\<lambda>(k, v). HeaderSet k (hd v)) (filter (\<lambda>(k, v). v \<noteq> []) h)"
  by (induction h w rule: Serve_headers.induct) (simp_all add: hd_conv_nth)

lemma Serve_eq:
  "Serve c w mark =
     w @ map (\<lambda>(k, v). HeaderSet k (hd v)) (filter (\<lambda>(k, v). v \<noteq> []) (Head c))
       @ (if mark then [HeaderSet ''X-From-BurstCache'' ''1''] else [])
       @ [CallWriteHeader (Code c), CallWrite (Buffer_String (Body c) @ [CHR 0x0A])]"
  by (simp add: Serve_def Serve_headers_eq Let_def)

lemma headers_after_append:
  "headers_after canon (xs @ ys) = foldl (apply_call canon) (headers_after canon xs) ys"
  by (simp add: headers_after_def)

text \<open>
  Claim C6, as amended. \<^verbatim>\<open>Serve\<close> adds to the calls the writer has already received:
  one \<^verbatim>\<open>Header().Set\<close> with the first value of each captured header that has a value,
  in the order of the iteration; when \<open>mark\<close> holds, one \<^verbatim>\<open>Set\<close> of the marker to
  \<^verbatim>\<open>1\<close>; \<^verbatim>\<open>WriteHeader\<close> with the captured status; and one \<^verbatim>\<open>Write\<close> whose bytes
  begin with the captured body. With \<open>mark\<close>, the writer's header map then holds
  exactly the one value \<^verbatim>\<open>1\<close> under the marker, whatever was captured and whatever
  the writer held before.
\<close>

theorem C6_Serve_replay:
  "(\<exists>rest. Serve c w mark =
       w @ map (\<lambda>(k, v). HeaderSet k (hd v)) (filter (\<lambda>(k, v). v \<noteq> []) (Head c))
         @ (if mark then [HeaderSet ''X-From-BurstCache'' ''1''] else [])
         @ [CallWriteHeader (Code c), CallWrite (Buffer_String (Body c) @ rest)]) \<and>
   (mark \<longrightarrow>
      headers_after canon (Serve c w mark) (canon ''X-From-BurstCache'') = Some [''1''])"
proof
  show "\<exists>rest. Serve c w mark =
       w @ map (\<lambda>(k, v). HeaderSet k (hd v)) (filter (\<lambda>(k, v). v \<noteq> []) (Head c))
         @ (if mark then [HeaderSet ''X-From-BurstCache'' ''1''] else [])
         @ [CallWriteHeader (Code c), CallWrite (Buffer_String (Body c) @ rest)]"
    using Serve_eq [of c w mark] by blast
next
  show "mark \<longrightarrow>
      headers_after canon (Serve c w mark) (canon ''X-From-BurstCache'') = Some [''1'']"
  proof
    assume mark
    then have "Serve c w mark =
        (w @ map (\<lambda>(k, v). HeaderSet k (hd v)) (filter (\<lambda>(k, v). v \<noteq> []) (Head c)))
          @ [HeaderSet ''X-From-BurstCache'' ''1'', CallWriteHeader (Code c),
             CallWrite (Buffer_String (Body c) @ [CHR 0x0A])]"
      by (simp add: Serve_eq)
    then show "headers_after canon (Serve c w mark) (canon ''X-From-BurstCache'') = Some [''1'']"
      by (simp only: headers_after_append) simp
  qed
qed

theorem C6_Serve_replay_witness:
  "headers_after (\<lambda>k. k) (Serve two_valued [] True) ''X-From-BurstCache'' = Some [''1'']"
  using C6_Serve_replay [of two_valued "[]" True "\<lambda>k. k"] by simp

text \<open>
  Claim C6 as stated fails on the recorder \<open>two_valued\<close>: the second value \<^verbatim>\<open>b\<close> of
  the captured header \<^verbatim>\<open>Vary\<close> is never sent, and the bytes written are the captured
  body \<^verbatim>\<open>hi\<close> followed by a newline that was not captured.
\<close>

theorem C6_first_value_and_newline_counterexample:
  "Serve two_valued [] True =
     [HeaderSet ''Vary'' ''a'', HeaderSet ''X-From-BurstCache'' ''0'',
      HeaderSet ''X-From-BurstCache'' ''1'', CallWriteHeader 200,
      CallWrite (''hi'' @ [CHR 0x0A])] \<and>
   Head two_valued = [(''Vary'', [''a'', ''b'']), (''X-From-BurstCache'', [''0'', ''0''])] \<and>
   Body two_valued = Some ''hi''"
  by (simp add: two_valued_def Serve_def run_ops_def NewResponseCacher_def Write_def
        WriteHeader_def Header_def Buffer_String_def Let_def)

section \<open>Properties of the cache store\<close>

text \<open>
  Claim C5 as stated fails: \<^verbatim>\<open>kill\<close> does not delete the association. The key stays in
  the map, bound to nil, whereas a key that was never cached is not in the map.
\<close>

theorem C5_kill_keeps_key_counterexample:
  "''/a'' \<in> dom (caches (kill one_entry ''/a'')) \<and>
   ''/a'' \<notin> dom (caches (NewCache Keymaker_Key 250 750))"
  by (simp add: one_entry_def kill_def swap_def NewCache_def)

text \<open>
  Claim C5, as amended. \<^verbatim>\<open>kill\<close> binds the key to nil. Every operation of the store then
  treats the key as it treats a key absent from the map (here: absent from \<open>never\<close>):
  \<^verbatim>\<open>status\<close> reports no entry, \<^verbatim>\<open>serve\<close>, \<^verbatim>\<open>stale\<close> and \<^verbatim>\<open>regen\<close> fault on the nil
  pointer, and \<^verbatim>\<open>swap\<close> installs the new entry.
\<close>

theorem C5_killed_key_like_absent:
  "caches never key = None \<Longrightarrow>
     caches (kill c key) key = Some None \<and>
     status (kill c key) key = (False, 0, False, False) \<and>
     status (kill c key) key = status never key \<and>
     serve (kill c key) key w mark = Inl NilDereference \<and>
     serve (kill c key) key w mark = serve never key w mark \<and>
     stale (kill c key) key = Inl NilDereference \<and>
     stale never key = Inl NilDereference \<and>
     regen (kill c key) key = Inl NilDereference \<and>
     regen never key = Inl NilDereference \<and>
     caches (swap (kill c key) key e) key = caches (swap never key e) key \<and>
     caches (swap (kill c key) key e) = (caches c)(key \<mapsto> Some e)"
  by (simp add: kill_def status_def serve_def stale_def regen_def swap_def index_def)

theorem C5_killed_key_like_absent_witness:
  "status (kill one_entry ''/a'') ''/a'' = status (NewCache Keymaker_Key 250 750) ''/a'' \<and>
   serve (kill one_entry ''/a'') ''/a'' [] True =
     serve (NewCache Keymaker_Key 250 750) ''/a'' [] True"
proof -
  have "caches (NewCache Keymaker_Key 250 750) ''/a'' = None" by (simp add: NewCache_def)
  from C5_killed_key_like_absent [OF this, of one_entry "[]" True "NewResponseCacher 2"]
  show ?thesis by blast
qed


section \<open>Properties of the controller: one task running alone\<close>

lemma status_swap: "status (swap c key e) key = (True, ident e, fresh e, regenerating e)"
  by (simp add: status_def swap_def)

lemma serve_swap: "serve (swap c key e) key w mark = Inr (Serve e w mark)"
  by (simp add: serve_def index_def swap_def)

lemma status_exists_index:
  "status c key = (True, sid, fr, rg) \<Longrightarrow>
     \<exists>e. index c key = Some e \<and> ident e = sid \<and> fresh e = fr \<and> regenerating e = rg"
  by (auto simp: status_def index_def split: option.splits)

lemma status_absent_index: "fst (status c key) = False \<longleftrightarrow> index c key = None"
  by (auto simp: status_def index_def split: option.splits)

lemma status_entry:
  "status c key =
     (case index c key of None \<Rightarrow> (False, 0, False, False)
      | Some e \<Rightarrow> (True, ident e, fresh e, regenerating e))"
  by (simp add: status_def index_def split: option.splits)

lemma Serve_flags: "Serve (e\<lparr>regenerating := x\<rparr>) w mark = Serve e w mark"
  "Serve (e\<lparr>fresh := y\<rparr>) w mark = Serve e w mark"
  by (simp_all add: Serve_def)

text \<open>
  A request (task \<open>tid\<close>) whose key has no entry, run through its four steps with no
  other task in between: the downstream handler is invoked exactly once, into a
  recorder made by \<^verbatim>\<open>NewResponseCacher\<close>; the captured entry is swapped in under the
  key; one decay task for the new identifier is started; and the entry is then served to
  the request's own writer without the marker, after which the request is finished.
\<close>

lemma Chain_miss_alone:
  assumes "tid < length (threads s)"
    and "threads s ! tid = Chain w r"
    and "\<not> fst (status (store s) (Keymaker (store s) r))"
    and "0 \<le> rnd" and "rnd < 1000000"
  shows "let key = Keymaker (store s) r;
             entry = run_ops (NewResponseCacher rnd) (nxt (invocations s) r);
             s' = exec nxt s [Run tid a, Run tid rnd, Run tid b, Run tid c]
         in invocations s' = Suc (invocations s) \<and>
            store s' = swap (store s) key entry \<and>
            threads s' = (threads s)[tid := Finished] @ [DecayTTL key rnd] \<and>
            writers s' = (writers s)(w := Serve entry (writers s w) False)"
proof -
  define key where "key = Keymaker (store s) r"
  define entry where "entry = run_ops (NewResponseCacher rnd) (nxt (invocations s) r)"
  define s1 where "s1 = set_task s tid (Regenerate w r key True)"
  define s2 where "s2 = set_task (s1\<lparr>invocations := Suc (invocations s1)\<rparr>) tid
                          (RegenerateSwap w key rnd entry True)"
  define s3 where "s3 = spawn (set_task (s2\<lparr>store := swap (store s2) key entry\<rparr>) tid
                                 (ChainServe w key False)) (DecayTTL key rnd)"
  define s4 where "s4 = set_task (s3\<lparr>writers := (writers s3)(w := Serve entry (writers s3 w) False)\<rparr>)
                          tid Finished"
  have e1: "step nxt s (Run tid a) = s1"
    using assms(1,2,3) by (auto simp: s1_def key_def Let_def split: prod.splits)
  have t1: "tid < length (threads s1)" "threads s1 ! tid = Regenerate w r key True"
    "invocations s1 = invocations s" "store s1 = store s" "writers s1 = writers s"
    using assms(1) by (simp_all add: s1_def set_task_def)
  have e2: "step nxt s1 (Run tid rnd) = s2"
    using t1 assms(4,5) by (simp add: s2_def entry_def Let_def)
  have t2: "tid < length (threads s2)" "threads s2 ! tid = RegenerateSwap w key rnd entry True"
    "invocations s2 = Suc (invocations s)" "store s2 = store s" "writers s2 = writers s"
    using t1 by (simp_all add: s2_def set_task_def)
  have e3: "step nxt s2 (Run tid b) = s3"
    using t2 by (simp add: s3_def)
  have t3: "tid < length (threads s3)" "threads s3 ! tid = ChainServe w key False"
    "invocations s3 = Suc (invocations s)" "store s3 = swap (store s) key entry"
    "writers s3 = writers s"
    using t2 by (simp_all add: s3_def set_task_def spawn_def nth_append)
  have e4: "step nxt s3 (Run tid c) = s4"
    using t3 by (simp add: s4_def serve_swap)
  have th: "threads s4 = (threads s)[tid := Finished] @ [DecayTTL key rnd]"
    using assms(1) by (simp add: s4_def s3_def s2_def s1_def set_task_def spawn_def list_update_append)
  have "exec nxt s [Run tid a, Run tid rnd, Run tid b, Run tid c] = s4"
    by (simp add: exec_def e1 e2 e3 e4 del: step.simps)
  moreover have "invocations s4 = Suc (invocations s)" "store s4 = swap (store s) key entry"
    "writers s4 = (writers s)(w := Serve entry (writers s w) False)"
    using t3 by (simp_all add: s4_def set_task_def)
  ultimately show ?thesis
    using th by (simp add: key_def entry_def Let_def)
qed

text \<open>
  A request that finds a stale entry that is not regenerating, run through its three
  steps with no other task in between: the entry is marked regenerating, exactly one
  regeneration is started as a task of its own, the handler is not invoked by the request,
  and the stale entry is served with the marker.
\<close>

lemma Chain_stale_alone:
  assumes "tid < length (threads s)"
    and "threads s ! tid = Chain w r"
    and "index (store s) (Keymaker (store s) r) = Some e"
    and "\<not> fresh e" and "\<not> regenerating e"
  shows "let key = Keymaker (store s) r;
             s' = exec nxt s [Run tid a, Run tid b, Run tid c]
         in invocations s' = invocations s \<and>
            regen (store s) key = Inr (store s') \<and>
            index (store s') key = Some (e\<lparr>regenerating := True\<rparr>) \<and>
            threads s' = (threads s)[tid := Finished] @ [Regenerate w r key False] \<and>
            writers s' = (writers s)(w := Serve e (writers s w) True)"
proof -
  define key where "key = Keymaker (store s) r"
  define c1 where "c1 = (store s)\<lparr>caches := (caches (store s))(key \<mapsto> Some (e\<lparr>regenerating := True\<rparr>))\<rparr>"
  define s1 where "s1 = set_task s tid (ChainRegen w r key)"
  define s2 where "s2 = spawn (set_task (s1\<lparr>store := c1\<rparr>) tid (ChainServe w key True))
                          (Regenerate w r key False)"
  define s3 where "s3 = set_task (s2\<lparr>writers := (writers s2)(w := Serve e (writers s2 w) True)\<rparr>)
                          tid Finished"
  have i: "index (store s) key = Some e"
    using assms(3) by (simp add: key_def)
  have st: "status (store s) key = (True, ident e, False, False)"
    using i assms(4,5) by (simp add: status_entry)
  have rg: "regen (store s) key = Inr c1"
    using i by (simp add: regen_def c1_def)
  have e1: "step nxt s (Run tid a) = s1"
    using assms(1,2) st by (simp add: s1_def key_def Let_def)
  have t1: "tid < length (threads s1)" "threads s1 ! tid = ChainRegen w r key"
    "invocations s1 = invocations s" "store s1 = store s" "writers s1 = writers s"
    using assms(1) by (simp_all add: s1_def set_task_def)
  have e2: "step nxt s1 (Run tid b) = s2"
    using t1 rg by (simp add: s2_def)
  have t2: "tid < length (threads s2)" "threads s2 ! tid = ChainServe w key True"
    "invocations s2 = invocations s" "store s2 = c1" "writers s2 = writers s"
    using t1 by (simp_all add: s2_def set_task_def spawn_def nth_append)
  have i2: "index c1 key = Some (e\<lparr>regenerating := True\<rparr>)"
    by (simp add: c1_def index_def)
  have e3: "step nxt s2 (Run tid c) = s3"
    using t2 i2 by (simp add: s3_def serve_def Serve_flags)
  have th: "threads s3 = (threads s)[tid := Finished] @ [Regenerate w r key False]"
    using assms(1) by (simp add: s3_def s2_def s1_def set_task_def spawn_def list_update_append)
  have "exec nxt s [Run tid a, Run tid b, Run tid c] = s3"
    by (simp add: exec_def e1 e2 e3 del: step.simps)
  moreover have "invocations s3 = invocations s" "store s3 = c1"
    "writers s3 = (writers s)(w := Serve e (writers s w) True)"
    using t2 by (simp_all add: s3_def set_task_def)
  ultimately show ?thesis
    using th rg i2 by (simp add: key_def Let_def)
qed

text \<open>
  A request that finds a fresh entry, or a stale one already regenerating, run through its
  two steps with no other task in between: the entry is served with the marker, the store
  is unchanged, no task is started and the handler is not invoked.
\<close>

lemma Chain_hit_alone:
  assumes "tid < length (threads s)"
    and "threads s ! tid = Chain w r"
    and "index (store s) (Keymaker (store s) r) = Some e"
    and "fresh e \<or> regenerating e"
  shows "let s' = exec nxt s [Run tid a, Run tid b]
         in invocations s' = invocations s \<and>
            store s' = store s \<and>
            threads s' = (threads s)[tid := Finished] \<and>
            writers s' = (writers s)(w := Serve e (writers s w) True)"
proof -
  define key where "key = Keymaker (store s) r"
  define s1 where "s1 = set_task s tid (ChainServe w key True)"
  define s2 where "s2 = set_task (s1\<lparr>writers := (writers s1)(w := Serve e (writers s1 w) True)\<rparr>)
                          tid Finished"
  have i: "index (store s) key = Some e"
    using assms(3) by (simp add: key_def)
  have st: "status (store s) key = (True, ident e, fresh e, regenerating e)"
    using i by (simp add: status_entry)
  have e1: "step nxt s (Run tid a) = s1"
    using assms(1,2,4) st by (auto simp: s1_def key_def Let_def)
  have t1: "tid < length (threads s1)" "threads s1 ! tid = ChainServe w key True"
    "invocations s1 = invocations s" "store s1 = store s" "writers s1 = writers s"
    using assms(1) by (simp_all add: s1_def set_task_def)
  have e2: "step nxt s1 (Run tid b) = s2"
    using t1 i by (simp add: s2_def serve_def)
  have "exec nxt s [Run tid a, Run tid b] = s2"
    by (simp add: exec_def e1 e2 del: step.simps)
  moreover have "invocations s2 = invocations s" "store s2 = store s"
    "writers s2 = (writers s)(w := Serve e (writers s w) True)"
    "threads s2 = (threads s)[tid := Finished]"
    using t1 by (simp_all add: s2_def s1_def set_task_def)
  ultimately show ?thesis
    by (simp add: Let_def)
qed

lemma writers_step_task:
  "writers (step_task nxt rnd s tid t) \<noteq> writers s \<Longrightarrow> \<exists>w key mark. t = ChainServe w key mark"
  by (cases t) (auto simp: set_task_def spawn_def Let_def split: prod.splits sum.splits if_splits)

text \<open>
  Claim C10. Neither step of \<^verbatim>\<open>regenerate\<close> (the call of the downstream handler, the
  swap) changes any response writer, whether it runs inside the request or as a goroutine
  of its own, and the handler writes into a recorder made by \<^verbatim>\<open>NewResponseCacher\<close>. A
  step of a task that does change a writer is the \<^verbatim>\<open>c.serve\<close> call of \<^verbatim>\<open>Chain\<close>.
\<close>

theorem C10_regenerate_leaves_writers:
  "tid < length (threads s) \<Longrightarrow>
     (threads s ! tid = Regenerate w r key sync \<longrightarrow>
        writers (step nxt s (Run tid rnd)) = writers s \<and>
        (0 \<le> rnd \<and> rnd < 1000000 \<longrightarrow>
           threads (step nxt s (Run tid rnd)) ! tid =
             RegenerateSwap w key rnd (run_ops (NewResponseCacher rnd) (nxt (invocations s) r)) sync)) \<and>
     (threads s ! tid = RegenerateSwap w key i cache sync \<longrightarrow>
        writers (step nxt s (Run tid rnd)) = writers s) \<and>
     (writers (step nxt s (Run tid rnd)) \<noteq> writers s \<longrightarrow>
        (\<exists>w' key' mark. threads s ! tid = ChainServe w' key' mark))"
proof -
  assume t: "tid < length (threads s)"
  have a: "threads s ! tid = Regenerate w r key sync \<longrightarrow>
        writers (step nxt s (Run tid rnd)) = writers s \<and>
        (0 \<le> rnd \<and> rnd < 1000000 \<longrightarrow>
           threads (step nxt s (Run tid rnd)) ! tid =
             RegenerateSwap w key rnd (run_ops (NewResponseCacher rnd) (nxt (invocations s) r)) sync)"
    using t by (simp add: set_task_def Let_def)
  have b: "threads s ! tid = RegenerateSwap w key i cache sync \<longrightarrow>
        writers (step nxt s (Run tid rnd)) = writers s"
    using t by (simp add: set_task_def spawn_def)
  have c: "writers (step nxt s (Run tid rnd)) \<noteq> writers s \<longrightarrow>
        (\<exists>w' key' mark. threads s ! tid = ChainServe w' key' mark)"
    using t writers_step_task [of nxt rnd s tid "threads s ! tid"] by simp
  from a b c show ?thesis by blast
qed

lemma step_DecayTTL:
  "tid < length (threads s) \<Longrightarrow> threads s ! tid = DecayTTL key i \<Longrightarrow>
     step nxt s (Run tid rnd) =
       set_task s tid (if entry_is (store s) key (\<lambda>e. fresh e \<and> ident e = i)
                       then DecayStale key i else DecayTTD key i)"
  by (simp add: status_entry entry_is_def split: option.splits)

lemma step_DecayTTD:
  "tid < length (threads s) \<Longrightarrow> threads s ! tid = DecayTTD key i \<Longrightarrow>
     step nxt s (Run tid rnd) =
       set_task s tid
         (if entry_is (store s) key (\<lambda>e. \<not> fresh e \<and> \<not> regenerating e \<and> ident e = i)
          then DecayKill key i else Finished)"
  by (simp add: status_entry entry_is_def split: option.splits)

text \<open>
  The guards of the decay task. Its first status check leads to \<^verbatim>\<open>c.stale(key)\<close> only
  if the entry exists, is fresh and carries the task's identifier; its second leads to
  \<^verbatim>\<open>c.kill(key)\<close> only if the entry exists, is stale, is not regenerating and carries
  the identifier. Neither check changes the store. A task whose identifier is not the
  stored one, run through both checks with no other task in between, changes nothing.
\<close>

lemma decay_guarded_by_id:
  assumes "tid < length (threads s)"
  shows
    "(threads s ! tid = DecayTTL key i \<longrightarrow>
        step nxt s (Run tid rnd) =
          set_task s tid (if entry_is (store s) key (\<lambda>e. fresh e \<and> ident e = i)
                          then DecayStale key i else DecayTTD key i)) \<and>
     (threads s ! tid = DecayStale key i \<longrightarrow>
        step nxt s (Run tid rnd) =
          (case stale (store s) key of
             Inl f \<Rightarrow> set_task s tid (Panicked f)
           | Inr c \<Rightarrow> set_task (s\<lparr>store := c\<rparr>) tid (DecayTTD key i))) \<and>
     (threads s ! tid = DecayTTD key i \<longrightarrow>
        step nxt s (Run tid rnd) =
          set_task s tid
            (if entry_is (store s) key (\<lambda>e. \<not> fresh e \<and> \<not> regenerating e \<and> ident e = i)
             then DecayKill key i else Finished)) \<and>
     (threads s ! tid = DecayKill key i \<longrightarrow>
        step nxt s (Run tid rnd) = set_task (s\<lparr>store := kill (store s) key\<rparr>) tid Finished) \<and>
     (threads s ! tid = DecayTTL key i \<and> \<not> entry_is (store s) key (\<lambda>e. ident e = i) \<longrightarrow>
        exec nxt s [Run tid rnd, Run tid rnd'] = set_task s tid Finished)"
proof -
  have last: "exec nxt s [Run tid rnd, Run tid rnd'] = set_task s tid Finished"
    if t: "threads s ! tid = DecayTTL key i" and d: "\<not> entry_is (store s) key (\<lambda>e. ident e = i)"
  proof -
    have n1: "\<not> entry_is (store s) key (\<lambda>e. fresh e \<and> ident e = i)"
      using d by (auto simp: entry_is_def split: option.splits)
    have n2: "\<not> entry_is (store s) key (\<lambda>e. \<not> fresh e \<and> \<not> regenerating e \<and> ident e = i)"
      using d by (auto simp: entry_is_def split: option.splits)
    define s1 where "s1 = set_task s tid (DecayTTD key i)"
    have e1: "step nxt s (Run tid rnd) = s1"
      using step_DecayTTL [OF assms t] n1 by (simp add: s1_def)
    have t1: "tid < length (threads s1)" "threads s1 ! tid = DecayTTD key i" "store s1 = store s"
      using assms by (simp_all add: s1_def set_task_def)
    have e2: "step nxt s1 (Run tid rnd') = set_task s1 tid Finished"
      using step_DecayTTD [OF t1(1,2)] n2 t1(3) by simp
    have "set_task s1 tid Finished = set_task s tid Finished"
      by (simp add: s1_def set_task_def)
    then show ?thesis
      by (simp add: exec_def e1 e2 del: step.simps)
  qed
  have ttl: "threads s ! tid = DecayTTL key i \<longrightarrow>
        step nxt s (Run tid rnd) =
          set_task s tid (if entry_is (store s) key (\<lambda>e. fresh e \<and> ident e = i)
                          then DecayStale key i else DecayTTD key i)"
    using step_DecayTTL [OF assms] by blast
  have ttd: "threads s ! tid = DecayTTD key i \<longrightarrow>
        step nxt s (Run tid rnd) =
          set_task s tid
            (if entry_is (store s) key (\<lambda>e. \<not> fresh e \<and> \<not> regenerating e \<and> ident e = i)
             then DecayKill key i else Finished)"
    using step_DecayTTD [OF assms] by blast
  have st: "threads s ! tid = DecayStale key i \<longrightarrow>
        step nxt s (Run tid rnd) =
          (case stale (store s) key of
             Inl f \<Rightarrow> set_task s tid (Panicked f)
           | Inr c \<Rightarrow> set_task (s\<lparr>store := c\<rparr>) tid (DecayTTD key i))"
    using assms by simp
  have kl: "threads s ! tid = DecayKill key i \<longrightarrow>
        step nxt s (Run tid rnd) = set_task (s\<lparr>store := kill (store s) key\<rparr>) tid Finished"
    using assms by simp
  from ttl st ttd kl last show ?thesis by blast
qed

text \<open>
  When \<^verbatim>\<open>status\<close> reports an entry, a \<^verbatim>\<open>serve\<close> on the same store does not fault and
  replays that entry.
\<close>

lemma serve_after_status:
  "fst (status c key) \<Longrightarrow> \<exists>e. index c key = Some e \<and> serve c key w mark = Inr (Serve e w mark)"
  by (auto simp: status_def serve_def index_def split: option.splits)

section \<open>The invariant of the entries, operation by operation\<close>

text \<open>
  The invariant under the single operations. A handler cannot touch the flags; the entry
  that \<^verbatim>\<open>regenerate\<close> swaps in satisfies the invariant, and so does the result of
  \<^verbatim>\<open>stale\<close> and of \<^verbatim>\<open>kill\<close>. The result of \<^verbatim>\<open>regen\<close> satisfies it exactly when the
  entry it marks is stale.
\<close>

lemma flags_apply_op:
  "fresh (apply_op c x) = fresh c \<and> regenerating (apply_op c x) = regenerating c \<and>
   ident (apply_op c x) = ident c"
  by (cases x) (simp_all add: Write_def WriteHeader_def Flush_def Let_def split: option.splits)

lemma flags_run_ops:
  "fresh (run_ops c ops) = fresh c \<and> regenerating (run_ops c ops) = regenerating c \<and>
   ident (run_ops c ops) = ident c"
  unfolding run_ops_def
  by (induction ops arbitrary: c) (simp_all add: flags_apply_op)

lemma regen_implies_stale_swap:
  "regen_implies_stale (swap c key (run_ops (NewResponseCacher i) ops)) key"
  by (simp add: regen_implies_stale_def index_def swap_def flags_run_ops NewResponseCacher_def)

lemma regen_implies_stale_stale:
  "stale c key = Inr c' \<Longrightarrow> regen_implies_stale c' key"
  by (auto simp: regen_implies_stale_def stale_def index_def split: option.splits)

lemma regen_implies_stale_kill: "regen_implies_stale (kill c key) key"
  by (simp add: regen_implies_stale_def kill_def index_def)

lemma regen_implies_stale_regen:
  "regen c key = Inr c' \<Longrightarrow>
     regen_implies_stale c' key \<longleftrightarrow> entry_is c key (\<lambda>e. \<not> fresh e)"
  by (auto simp: regen_implies_stale_def regen_def index_def entry_is_def split: option.splits)

section \<open>Concrete schedules\<close>

lemmas scenario_defs = exec_def hello_def cold_def req_a_def fill_then_stale_def both_read_first_def
  mark_after_swap_def kill_before_serve_def superseded_after_check_def killed_after_swap_def
  init_world_def NewCache_def Keymaker_Key_def
  status_def set_task_def spawn_def run_ops_def NewResponseCacher_def WriteHeader_def Write_def
  swap_def serve_def index_def Serve_def Buffer_String_def stale_def regen_def kill_def Let_def
  regen_implies_stale_def one_entry_def entry_is_def

lemma Chain_miss_alone_example:
  "invocations (exec hello (exec hello cold [Arrive req_a]) [Run 0 0, Run 0 1, Run 0 0, Run 0 0]) = 1 \<and>
   writers (exec hello (exec hello cold [Arrive req_a]) [Run 0 0, Run 0 1, Run 0 0, Run 0 0]) 0 =
     [CallWriteHeader 200, CallWrite (''x'' @ [CHR 0x0A])] \<and>
   threads (exec hello (exec hello cold [Arrive req_a]) [Run 0 0, Run 0 1, Run 0 0, Run 0 0]) =
     [Finished, DecayTTL ''/a'' 1]"
proof -
  have h: "0 < length (threads (exec hello cold [Arrive req_a]))"
    "threads (exec hello cold [Arrive req_a]) ! 0 = Chain 0 req_a"
    "\<not> fst (status (store (exec hello cold [Arrive req_a]))
              (Keymaker (store (exec hello cold [Arrive req_a])) req_a))"
    "(0::int) \<le> 1" "(1::int) < 1000000"
    by (simp_all add: scenario_defs)
  have v: "invocations (exec hello cold [Arrive req_a]) = 0"
    "threads (exec hello cold [Arrive req_a]) = [Chain 0 req_a]"
    "writers (exec hello cold [Arrive req_a]) 0 = []"
    "Keymaker (store (exec hello cold [Arrive req_a])) req_a = ''/a''"
    "Serve (run_ops (NewResponseCacher 1) (hello 0 req_a)) [] False =
       [CallWriteHeader 200, CallWrite (''x'' @ [CHR 0x0A])]"
    by (simp_all add: scenario_defs)
  show ?thesis
    using Chain_miss_alone [OF h, of hello 0 0 0] v by (simp add: Let_def)
qed

theorem C10_regenerate_leaves_writers_witness:
  "writers (step hello (exec hello cold [Arrive req_a, Run 0 0]) (Run 0 1)) =
     writers (exec hello cold [Arrive req_a, Run 0 0]) \<and>
   threads (step hello (exec hello cold [Arrive req_a, Run 0 0]) (Run 0 1)) ! 0 =
     RegenerateSwap 0 ''/a'' 1 (run_ops (NewResponseCacher 1) (hello 0 req_a)) True"
proof -
  have h: "0 < length (threads (exec hello cold [Arrive req_a, Run 0 0]))"
    "threads (exec hello cold [Arrive req_a, Run 0 0]) ! 0 = Regenerate 0 req_a ''/a'' True"
    "invocations (exec hello cold [Arrive req_a, Run 0 0]) = 0"
    by (simp_all add: scenario_defs)
  show ?thesis
    using C10_regenerate_leaves_writers [OF h(1), where w = 0 and r = req_a and key = "''/a''"
        and sync = True and rnd = 1 and nxt = hello] h(2,3)
    by simp
qed

lemma decay_guarded_by_id_example:
  "step hello (spawn (init_world one_entry) (DecayTTL ''/a'' 1)) (Run 0 0) =
     set_task (spawn (init_world one_entry) (DecayTTL ''/a'' 1)) 0 (DecayStale ''/a'' 1) \<and>
   exec hello (spawn (init_world one_entry) (DecayTTL ''/a'' 5)) [Run 0 0, Run 0 0] =
     set_task (spawn (init_world one_entry) (DecayTTL ''/a'' 5)) 0 Finished"
proof -
  have h: "0 < length (threads (spawn (init_world one_entry) (DecayTTL ''/a'' i)))"
    "threads (spawn (init_world one_entry) (DecayTTL ''/a'' i)) ! 0 = DecayTTL ''/a'' i" for i
    by (simp_all add: spawn_def init_world_def)
  have e: "entry_is (store (spawn (init_world one_entry) (DecayTTL ''/a'' 1))) ''/a''
             (\<lambda>e. fresh e \<and> ident e = 1)"
    "\<not> entry_is (store (spawn (init_world one_entry) (DecayTTL ''/a'' 5))) ''/a''
             (\<lambda>e. ident e = 5)"
    by (simp_all add: scenario_defs)
  show ?thesis
    using decay_guarded_by_id [OF h(1), of 1 "''/a''" 1 hello 0 0]
          decay_guarded_by_id [OF h(1), of 5 "''/a''" 5 hello 0 0] h(2) e
    by simp
qed

text \<open>
  Claim C1. After \<open>fill_then_stale\<close> the entry is stale and not regenerating, and the
  handler has been invoked once. In the schedule \<open>both_read_first\<close> two requests arrive;
  both read the status before either marks the entry. Both are served the stale entry with
  the marker, but the handler has then been invoked three times: each of the two requests
  started a regeneration of its own.
\<close>

theorem C1_two_requests_two_regenerations:
  "status (store (exec hello cold fill_then_stale)) ''/a'' = (True, 1, False, False) \<and>
   invocations (exec hello cold fill_then_stale) = 1 \<and>
   invocations (exec hello cold (fill_then_stale @ both_read_first)) = 3 \<and>
   threads (exec hello cold (fill_then_stale @ both_read_first)) ! 2 = Finished \<and>
   threads (exec hello cold (fill_then_stale @ both_read_first)) ! 3 = Finished \<and>
   writers (exec hello cold (fill_then_stale @ both_read_first)) 2 =
     [HeaderSet ''X-From-BurstCache'' ''1'', CallWriteHeader 200, CallWrite (''x'' @ [CHR 0x0A])] \<and>
   writers (exec hello cold (fill_then_stale @ both_read_first)) 3 =
     [HeaderSet ''X-From-BurstCache'' ''1'', CallWriteHeader 200, CallWrite (''x'' @ [CHR 0x0A])]"
  by (simp add: scenario_defs)

text \<open>
  Claim C2. In the schedule \<open>superseded_after_check\<close> the decay task of identifier 1 has
  passed its check and stands before \<^verbatim>\<open>c.stale(key)\<close> when the entry of identifier 2 is
  swapped in. Its next step marks that entry, fresh and of another generation, stale.
\<close>

theorem C2_stale_hits_newer_generation:
  "threads (exec hello cold superseded_after_check) ! 2 = DecayStale ''/a'' 1 \<and>
   status (store (exec hello cold superseded_after_check)) ''/a'' = (True, 2, True, False) \<and>
   status (store (exec hello cold (superseded_after_check @ [Run 2 0]))) ''/a'' =
     (True, 2, False, False)"
  by (simp add: scenario_defs)

text \<open>
  Claim C3. In the schedule \<open>killed_after_swap\<close> the request of task 1 found no entry,
  invoked the handler itself and swapped its entry in; the decay task of the other
  generation, which had passed its check before that swap, kills the entry before task 1
  reaches \<^verbatim>\<open>c.serve(key, w, false)\<close>. Task 1 panics on the nil pointer: nothing is
  served to the request that filled the cache, and the key is without an entry again.
\<close>

theorem C3_filled_entry_killed_before_serve:
  "threads (exec hello cold (take 4 killed_after_swap)) ! 1 = Regenerate 1 req_a ''/a'' True \<and>
   threads (exec hello cold (take 12 killed_after_swap)) ! 1 = ChainServe 1 ''/a'' False \<and>
   status (store (exec hello cold (take 12 killed_after_swap))) ''/a'' = (True, 2, True, False) \<and>
   threads (exec hello cold (take 12 killed_after_swap)) ! 2 = DecayKill ''/a'' 1 \<and>
   threads (exec hello cold killed_after_swap) ! 1 = Panicked NilDereference \<and>
   writers (exec hello cold killed_after_swap) 1 = [] \<and>
   status (store (exec hello cold killed_after_swap)) ''/a'' = (False, 0, False, False) \<and>
   invocations (exec hello cold killed_after_swap) = 2"
  by (simp add: scenario_defs)

text \<open>
  Claim C4. In the schedule \<open>mark_after_swap\<close> the second request marks the entry as
  regenerating after the first request's regeneration has swapped in the entry of
  identifier 2: that entry is then fresh and regenerating at once.
\<close>

theorem C4_fresh_entry_marked_regenerating:
  "status (store (exec hello cold (fill_then_stale @ mark_after_swap))) ''/a'' =
     (True, 2, True, True) \<and>
   \<not> regen_implies_stale (store (exec hello cold (fill_then_stale @ mark_after_swap))) ''/a''"
  by (simp add: scenario_defs)

text \<open>
  Claim C7. In the schedule \<open>kill_before_serve\<close> the request has seen the entry in its
  status check and is inside \<^verbatim>\<open>if !fresh && !regen\<close>; the decay task, which saw the same
  stale entry, kills it before the request reaches \<^verbatim>\<open>c.serve\<close>. The request panics on
  the nil pointer and nothing is written to its writer.
\<close>

theorem C7_serve_after_kill_panics:
  "threads (exec hello cold (fill_then_stale @ [Arrive req_a, Run 2 0])) ! 2 =
     ChainRegen 2 req_a ''/a'' \<and>
   threads (exec hello cold (fill_then_stale @ kill_before_serve)) ! 2 = Panicked NilDereference \<and>
   writers (exec hello cold (fill_then_stale @ kill_before_serve)) 2 = []"
  by (simp add: scenario_defs)

end
